theory Spec2Isabelle
  imports Main
begin

section \<open>Python exceptions and results\<close>

text \<open>
  Every \<^verbatim>\<open>raise\<close> of the source, and every exception a library call of the source
  can throw on the modelled inputs, is a value of \<open>py_error\<close>; a computation that may
  raise returns \<open>py_error + 'a\<close>, with \<open>Inl\<close> for the exception.
\<close>

datatype py_error = ValueError | IndexError | NotImplementedError

definition bind :: "py_error + 'a \<Rightarrow> ('a \<Rightarrow> py_error + 'b) \<Rightarrow> py_error + 'b" where
  "bind m f = (case m of Inl e \<Rightarrow> Inl e | Inr x \<Rightarrow> f x)"

definition getitem :: "'a list \<Rightarrow> nat \<Rightarrow> py_error + 'a" where
  \<comment> \<open>\<^verbatim>\<open>xs[i]\<close> for a constant index \<open>i \<ge> 0\<close>: out of range raises IndexError.\<close>
  "getitem xs i = (if i < length xs then Inr (xs ! i) else Inl IndexError)"

section \<open>float32 values\<close>

text \<open>
  The scores of a prediction and the bands of a training patch are IEEE 754 binary32
  numbers (\<^verbatim>\<open>np.float32\<close>). Every finite binary32 number is an integer multiple of
  the smallest subnormal, 2 to the power -149: \<open>Fin m\<close> stands for \<open>m\<close> times that unit.
  The sign of zero is not kept: no test of the source (\<^verbatim>\<open>isnan\<close>, \<^verbatim>\<open>isinf\<close>, the comparisons of
  \<^verbatim>\<open>argmax\<close>) tells the two zeros apart.
\<close>

datatype float32 = NaN | PInf | NInf | Fin int

definition binary32 :: "int \<Rightarrow> nat \<Rightarrow> float32" where
  \<comment> \<open>\<open>binary32 m k\<close> is \<open>m\<close> times 2 to the power \<open>k - 149\<close>\<close>
  "binary32 m k = Fin (m * 2 ^ k)"

definition isnan :: "float32 \<Rightarrow> bool" where
  "isnan x = (x = NaN)"

definition isinf :: "float32 \<Rightarrow> bool" where
  "isinf x = (x = PInf \<or> x = NInf)"

definition isfinite :: "float32 \<Rightarrow> bool" where
  "isfinite x = (\<not> isnan x \<and> \<not> isinf x)"

fun f32_le :: "float32 \<Rightarrow> float32 \<Rightarrow> bool" where
  "f32_le NaN y = False"
| "f32_le x NaN = False"
| "f32_le NInf y = True"
| "f32_le x PInf = True"
| "f32_le PInf y = False"
| "f32_le x NInf = False"
| "f32_le (Fin a) (Fin b) = (a \<le> b)"

section \<open>The patch reassembly loop of \<^verbatim>\<open>workflow/v2/5.prediction_dnn.py\<close>\<close>

text \<open>
  One element of \<^verbatim>\<open>predictions\<close> is a two-dimensional array: the source reads the
  score of class \<open>k\<close> as \<^verbatim>\<open>prediction[0][k]\<close>. It is a list of rows here.
\<close>

type_synonym prediction = "float32 list list"

text \<open>
  \<^verbatim>\<open>np.argmax\<close> with no axis works on the flattened array, returns the index of the
  first occurrence of the maximum, treats a NaN as the maximum, and raises ValueError
  on an empty array. \<open>argmax_loop mp mi i xs\<close> scans the rest \<open>xs\<close> of the array from
  index \<open>i\<close> with the running maximum \<open>mp\<close> found at index \<open>mi\<close>.
\<close>

fun argmax_loop :: "float32 \<Rightarrow> nat \<Rightarrow> nat \<Rightarrow> float32 list \<Rightarrow> nat" where
  "argmax_loop mp mi i [] = mi"
| "argmax_loop mp mi i (x # xs) =
     (if isnan mp then mi
      else if \<not> f32_le x mp then argmax_loop x i (Suc i) xs
      else argmax_loop mp mi (Suc i) xs)"

definition np_argmax :: "prediction \<Rightarrow> py_error + nat" where
  "np_argmax a =
     (case concat a of [] \<Rightarrow> Inl ValueError | x # xs \<Rightarrow> Inr (argmax_loop x 0 1 xs))"

definition class_index :: "prediction \<Rightarrow> py_error + int" where
  \<comment> \<open>\<^verbatim>\<open>int(np.argmax(prediction))\<close>\<close>
  "class_index p = bind (np_argmax p) (\<lambda>c. Inr (int c))"

definition item2 :: "prediction \<Rightarrow> nat \<Rightarrow> nat \<Rightarrow> py_error + float32" where
  \<comment> \<open>\<^verbatim>\<open>prediction[i][j]\<close>\<close>
  "item2 p i j = bind (getitem p i) (\<lambda>row. getitem row j)"

text \<open>
  \<^verbatim>\<open>patch = [[], [], [], [], [], []]\<close>: six parallel lists, the first of class
  indices, the other five of scores.
\<close>

record patch_buffer =
  patch_0 :: "int list"
  patch_1 :: "float32 list"
  patch_2 :: "float32 list"
  patch_3 :: "float32 list"
  patch_4 :: "float32 list"
  patch_5 :: "float32 list"

definition empty_patch :: patch_buffer where
  "empty_patch =
     \<lparr>patch_0 = [], patch_1 = [], patch_2 = [], patch_3 = [], patch_4 = [], patch_5 = []\<rparr>"

text \<open>The \<^verbatim>\<open>tf.train.Example\<close> written for one patch: its six named features.\<close>

record example =
  prediction :: "int list"
  cropland_etc :: "float32 list"
  rice :: "float32 list"
  forest :: "float32 list"
  urban :: "float32 list"
  others_etc :: "float32 list"

definition make_example :: "patch_buffer \<Rightarrow> example" where
  "make_example b =
     \<lparr>prediction = patch_0 b, cropland_etc = patch_1 b, rice = patch_2 b,
      forest = patch_3 b, urban = patch_4 b, others_etc = patch_5 b\<rparr>"

text \<open>
  The state of the loop: the buffer, the patch counter and the records the writer has
  received, oldest first. The two \<^verbatim>\<open>print\<close> calls write to the console only and are
  left out.
\<close>

record loop_state =
  patch :: patch_buffer
  cur_patch :: int
  writer :: "example list"

definition init_state :: loop_state where
  "init_state = \<lparr>patch = empty_patch, cur_patch = 1, writer = []\<rparr>"

definition append_prediction :: "patch_buffer \<Rightarrow> prediction \<Rightarrow> py_error + patch_buffer" where
  \<comment> \<open>lines 152 to 157: the six \<^verbatim>\<open>append\<close> calls, in the source's order\<close>
  "append_prediction b p =
     bind (class_index p) (\<lambda>c.
     bind (item2 p 0 0) (\<lambda>s0.
     bind (item2 p 0 1) (\<lambda>s1.
     bind (item2 p 0 2) (\<lambda>s2.
     bind (item2 p 0 3) (\<lambda>s3.
     bind (item2 p 0 4) (\<lambda>s4.
       Inr \<lparr>patch_0 = patch_0 b @ [c], patch_1 = patch_1 b @ [s0],
            patch_2 = patch_2 b @ [s1], patch_3 = patch_3 b @ [s2],
            patch_4 = patch_4 b @ [s3], patch_5 = patch_5 b @ [s4]\<rparr>))))))"

definition flush_if_full :: "int \<Rightarrow> int \<Rightarrow> loop_state \<Rightarrow> patch_buffer \<Rightarrow> loop_state" where
  \<comment> \<open>lines 163 to 196: write the record and reset the buffer when it holds a patch\<close>
  "flush_if_full patch_width patch_height st b =
     (if int (length (patch_0 b)) = patch_width * patch_height
      then \<lparr>patch = empty_patch, cur_patch = cur_patch st + 1,
            writer = writer st @ [make_example b]\<rparr>
      else st\<lparr>patch := b\<rparr>)"

definition loop_body :: "int \<Rightarrow> int \<Rightarrow> loop_state \<Rightarrow> prediction \<Rightarrow> py_error + loop_state" where
  "loop_body patch_width patch_height st p =
     bind (append_prediction (patch st) p)
       (\<lambda>b. Inr (flush_if_full patch_width patch_height st b))"

fun reassemble :: "int \<Rightarrow> int \<Rightarrow> loop_state \<Rightarrow> prediction list \<Rightarrow> py_error + loop_state" where
  "reassemble patch_width patch_height st [] = Inr st"
| "reassemble patch_width patch_height st (p # ps) =
     (case loop_body patch_width patch_height st p of
        Inl e \<Rightarrow> Inl e
      | Inr st' \<Rightarrow> reassemble patch_width patch_height st' ps)"

text \<open>
  An exception in the loop ends the script before \<^verbatim>\<open>writer.close()\<close>; the result is
  then the exception, and what the file holds is not modelled.
\<close>

definition write_predictions :: "int \<Rightarrow> int \<Rightarrow> prediction list \<Rightarrow> py_error + example list" where
  \<comment> \<open>lines 142 to 198: the content of the output file after \<^verbatim>\<open>writer.close()\<close>\<close>
  "write_predictions patch_width patch_height predictions =
     bind (reassemble patch_width patch_height init_state predictions)
       (\<lambda>st. Inr (writer st))"

section \<open>What the loop computes\<close>

text \<open>
  A prediction the loop can take: it has a row 0 with at least five scores (the model
  of the observed configuration returns one row of five scores per pixel). On any other
  prediction \<^verbatim>\<open>prediction[0][4]\<close> or an earlier index raises IndexError, so these are
  exactly the predictions on which the loop does not raise (lemma \<open>reassemble_Inr_iff\<close>).
\<close>

definition well_shaped :: "prediction \<Rightarrow> bool" where
  "well_shaped p = (case p of [] \<Rightarrow> False | row # _ \<Rightarrow> 5 \<le> length row)"

text \<open>The buffer that holds exactly the predictions \<open>qs\<close>, oldest first.\<close>

definition buffer_of :: "prediction list \<Rightarrow> patch_buffer" where
  "buffer_of qs =
     \<lparr>patch_0 = map (\<lambda>p. projr (class_index p)) qs,
      patch_1 = map (\<lambda>p. projr (item2 p 0 0)) qs,
      patch_2 = map (\<lambda>p. projr (item2 p 0 1)) qs,
      patch_3 = map (\<lambda>p. projr (item2 p 0 2)) qs,
      patch_4 = map (\<lambda>p. projr (item2 p 0 3)) qs,
      patch_5 = map (\<lambda>p. projr (item2 p 0 4)) qs\<rparr>"

text \<open>
  The state after the predictions \<open>ps\<close> went through the loop with a patch of \<open>n\<close>
  pixels, in closed form: one record for each full run of \<open>n\<close> predictions, the rest
  in the buffer.
\<close>

definition state_after :: "nat \<Rightarrow> prediction list \<Rightarrow> loop_state" where
  "state_after n ps =
     \<lparr>patch = buffer_of (drop (length ps div n * n) ps),
      cur_patch = 1 + int (length ps div n),
      writer = map (\<lambda>k. make_example (buffer_of (take n (drop (k * n) ps))))
                 [0..<length ps div n]\<rparr>"

section \<open>\<^verbatim>\<open>Utils.filter_good_patches\<close> of \<^verbatim>\<open>aces/utils.py\<close>\<close>

text \<open>
  float32 addition: the exact sum, rounded to 24 significant bits, ties to even; a
  rounded magnitude of 2 to the power 128 or more (\<open>2 ^ 277\<close> units) overflows to an
  infinity. \<open>bit_length a\<close> is the number of binary digits of \<open>a\<close>.
\<close>

function bit_length :: "int \<Rightarrow> nat" where
  "bit_length a = (if a \<le> 0 then 0 else Suc (bit_length (a div 2)))"
  by pat_completeness auto
termination
  by (relation "measure nat") auto

declare bit_length.simps [simp del]

definition round_f32 :: "int \<Rightarrow> float32" where
  "round_f32 m =
     (let a = \<bar>m\<bar>; k = bit_length a in
      if k \<le> 24 then Fin m
      else
        let s = k - 24; q = a div 2 ^ s; r = a mod 2 ^ s;
            q' = (if 2 ^ s < 2 * r \<or> (2 * r = 2 ^ s \<and> odd q) then q + 1 else q);
            v = q' * 2 ^ s
        in if 2 ^ 277 \<le> v then (if m < 0 then NInf else PInf)
           else Fin (if m < 0 then - v else v))"

fun f32_add :: "float32 \<Rightarrow> float32 \<Rightarrow> float32" where
  "f32_add NaN y = NaN"
| "f32_add x NaN = NaN"
| "f32_add PInf NInf = NaN"
| "f32_add NInf PInf = NaN"
| "f32_add PInf y = PInf"
| "f32_add x PInf = PInf"
| "f32_add NInf y = NInf"
| "f32_add x NInf = NInf"
| "f32_add (Fin a) (Fin b) = round_f32 (a + b)"

text \<open>
  \<open>Fin m\<close> is a float32 number when rounding leaves it as it is: \<open>m\<close> has at most 24
  significant bits and is below the overflow threshold.
\<close>

definition representable :: "float32 \<Rightarrow> bool" where
  "representable x = (case x of Fin m \<Rightarrow> round_f32 m = Fin m | _ \<Rightarrow> True)"

text \<open>
  A decoded patch is a structured array: one entry per pixel, each with one float32
  value per band. \<^verbatim>\<open>patch.view(np.float32)\<close> reads the same memory as one flat
  float32 array, pixel after pixel.
\<close>

type_synonym training_patch = "float32 list list"

definition view_float32 :: "training_patch \<Rightarrow> float32 list" where
  "view_float32 patch' = concat patch'"

text \<open>
  \<^verbatim>\<open>np.sum\<close> of a float32 array stays in float32. The additions are taken from left
  to right here; numpy groups the additions of a long array in blocks, which can change
  the rounding of the sum but gives the same value on arrays of one or two elements.
\<close>

definition np_sum :: "float32 list \<Rightarrow> float32" where
  "np_sum xs = foldl f32_add (Fin 0) xs"

definition filter_good_patches :: "training_patch \<Rightarrow> bool" where
  "filter_good_patches patch' =
     (let has_nan = isnan (np_sum (view_float32 patch'));
          has_inf = isinf (np_sum (view_float32 patch'))
      in if has_nan \<or> has_inf then False else True)"

definition FLT_MAX :: float32 where
  \<comment> \<open>the largest finite float32, \<open>(2 ^ 24 - 1) * 2 ^ 104\<close>, about 3.4028235e38\<close>
  "FLT_MAX = binary32 (2 ^ 24 - 1) 253"

section \<open>\<^verbatim>\<open>EEUtils.export_training_data\<close> of \<^verbatim>\<open>aces/utils.py\<close>\<close>

text \<open>
  The keyword arguments \<^verbatim>\<open>**params\<close> are a dictionary from names to Python values;
  \<^verbatim>\<open>kwargs.get(k, d)\<close> is the value stored under \<open>k\<close>, or \<open>d\<close> when there is
  none.
\<close>

datatype pyval = PyNone | PyStr string | PyList "string list"

type_synonym kwargs = "string \<rightharpoonup> pyval"

definition kwargs_get :: "kwargs \<Rightarrow> string \<Rightarrow> pyval \<Rightarrow> pyval" where
  "kwargs_get kw k d = (case kw k of None \<Rightarrow> d | Some v \<Rightarrow> v)"

text \<open>
  Of a feature collection the export reads one thing,
  \<^verbatim>\<open>collection.first().propertyNames().getInfo()\<close>.
\<close>

record feature_collection =
  collection_id :: string
  first_property_names :: "string list"

text \<open>The arguments of \<^verbatim>\<open>ee.batch.Export.table.toCloudStorage\<close>.\<close>

record export_task =
  collection :: feature_collection
  description :: pyval
  fileNamePrefix :: pyval
  bucket :: pyval
  fileFormat :: pyval
  selectors :: pyval

text \<open>
  What the calls do to the Earth Engine service: the export tasks created and the tasks
  started, oldest first. The \<^verbatim>\<open>logging.info\<close> line is left out.
\<close>

record ee_state =
  created :: "export_task list"
  started :: "export_task list"

definition export_to_cloud_storage ::
    "feature_collection \<Rightarrow> bool \<Rightarrow> kwargs \<Rightarrow> ee_state \<Rightarrow> ee_state" where
  \<comment> \<open>\<^verbatim>\<open>EEUtils._export_to_cloud_storage\<close>\<close>
  "export_to_cloud_storage coll start_training kw s =
     (let desc = kwargs_get kw ''description'' (PyStr ''myExportTableTask'');
          training_task =
            \<lparr>collection = coll,
             description = desc,
             fileNamePrefix =
               (if kwargs_get kw ''file_prefix'' PyNone \<noteq> PyNone
                then kwargs_get kw ''file_prefix'' PyNone else desc),
             bucket = kwargs_get kw ''bucket'' (PyStr ''myBucket''),
             fileFormat = kwargs_get kw ''file_format'' (PyStr ''TFRecord''),
             selectors = kwargs_get kw ''selectors'' (PyList (first_property_names coll))\<rparr>;
          s' = s\<lparr>created := created s @ [training_task]\<rparr>
      in if start_training then s'\<lparr>started := started s' @ [training_task]\<rparr> else s')"

text \<open>
  The result of \<open>export_training_data\<close> is the exception it raised, if any, and the
  state of the service when it returned or raised.
\<close>

definition export_training_data ::
    "feature_collection \<Rightarrow> string \<Rightarrow> bool \<Rightarrow> kwargs \<Rightarrow> ee_state \<Rightarrow> py_error option \<times> ee_state" where
  "export_training_data coll export_type start_training params s =
     (if export_type = ''cloud''
      then (None, export_to_cloud_storage coll start_training params s)
      else (Some NotImplementedError, s))"

section \<open>The example scenario\<close>

text \<open>
  The score vectors \<open>[.9, .05, .02, .02, .01]\<close> and \<open>[.1, .7, .1, .05, .05]\<close> as
  float32 numbers: 0.9 is \<open>15099494 * 2 ^ -24\<close>, 0.7 is \<open>11744051 * 2 ^ -24\<close>, 0.1 is
  \<open>13421773 * 2 ^ -27\<close>, 0.05 is \<open>13421773 * 2 ^ -28\<close>, 0.02 is \<open>10737418 * 2 ^ -29\<close>
  and 0.01 is \<open>10737418 * 2 ^ -30\<close>. \<open>scores_c\<close> is \<open>[.1, .1, .7, .05, .05]\<close>.
\<close>

definition scores_a :: "float32 list" where
  "scores_a = [binary32 15099494 125, binary32 13421773 121, binary32 10737418 120,
     binary32 10737418 120, binary32 10737418 119]"

definition scores_b :: "float32 list" where
  "scores_b = [binary32 13421773 122, binary32 11744051 125, binary32 13421773 122,
     binary32 13421773 121, binary32 13421773 121]"

definition scores_c :: "float32 list" where
  "scores_c = [binary32 13421773 122, binary32 13421773 122, binary32 11744051 125,
     binary32 13421773 121, binary32 13421773 121]"

section \<open>The loop in closed form\<close>

lemma reassemble_snoc:
  "reassemble W H st (ps @ [p]) = bind (reassemble W H st ps) (\<lambda>st'. loop_body W H st' p)"
  by (induction ps arbitrary: st) (auto simp: bind_def split: sum.splits)

lemma well_shaped_item2:
  assumes "well_shaped p" "j < 5"
  shows "\<exists>s. item2 p 0 j = Inr s"
  using assms by (auto simp: well_shaped_def item2_def getitem_def bind_def split: list.splits)

lemma well_shaped_class_index:
  assumes "well_shaped p"
  shows "\<exists>c. class_index p = Inr c"
  using assms by (auto simp: well_shaped_def class_index_def np_argmax_def bind_def split: list.splits)

lemma append_prediction_buffer_of:
  assumes "well_shaped p"
  shows "append_prediction (buffer_of qs) p = Inr (buffer_of (qs @ [p]))"
proof -
  obtain c where c: "class_index p = Inr c"
    using well_shaped_class_index [OF assms] by blast
  obtain s0 where s0: "item2 p 0 0 = Inr s0"
    using well_shaped_item2 [OF assms, of 0] by auto
  obtain s1 where s1: "item2 p 0 (Suc 0) = Inr s1"
    using well_shaped_item2 [OF assms, of 1] by auto
  obtain s2 where s2: "item2 p 0 2 = Inr s2"
    using well_shaped_item2 [OF assms, of 2] by auto
  obtain s3 where s3: "item2 p 0 3 = Inr s3"
    using well_shaped_item2 [OF assms, of 3] by auto
  obtain s4 where s4: "item2 p 0 4 = Inr s4"
    using well_shaped_item2 [OF assms, of 4] by auto
  show ?thesis
    by (simp add: append_prediction_def c s0 s1 s2 s3 s4 bind_def buffer_of_def)
qed

lemma buffer_of_Nil: "buffer_of [] = empty_patch"
  by (simp add: buffer_of_def empty_patch_def)

lemma length_patch_0_buffer_of: "length (patch_0 (buffer_of qs)) = length qs"
  by (simp add: buffer_of_def)

lemma state_after_Nil: "state_after n [] = init_state"
  by (simp add: state_after_def init_state_def buffer_of_Nil)

lemma loop_body_state_after:
  assumes n: "0 < patch_width * patch_height" "n = nat (patch_width * patch_height)"
    and p: "well_shaped p"
  shows "loop_body patch_width patch_height (state_after n ps) p = Inr (state_after n (ps @ [p]))"
proof -
  let ?l = "length ps"
  let ?m = "?l div n"
  have n0: "0 < n" using n by simp
  have cap: "int k = patch_width * patch_height \<longleftrightarrow> k = n" for k
    using n by auto
  have rest: "length (drop (?m * n) ps) = ?l mod n"
    by (simp add: minus_div_mult_eq_mod)
  have old: "take n (drop (k * n) (ps @ [p])) = take n (drop (k * n) ps)" if "k < ?m" for k
  proof -
    from that have "Suc k \<le> ?m" by simp
    then have "Suc k * n \<le> ?m * n" by (rule mult_le_mono1)
    also have "\<dots> \<le> ?l" by simp
    finally show ?thesis by simp
  qed
  have body: "loop_body patch_width patch_height (state_after n ps) p =
      Inr (flush_if_full patch_width patch_height (state_after n ps)
             (buffer_of (drop (?m * n) ps @ [p])))"
    by (simp add: loop_body_def state_after_def append_prediction_buffer_of [OF p] bind_def)
  have len: "length (patch_0 (buffer_of (drop (?m * n) ps @ [p]))) = Suc (?l mod n)"
    unfolding length_patch_0_buffer_of length_append rest by simp
  show ?thesis
  proof (cases "Suc (?l mod n) = n")
    case True
    have div: "Suc ?l div n = Suc ?m"
      using True by (simp add: div_Suc mod_Suc)
    have e: "?m * n + ?l mod n = ?l"
      by (rule div_mult_mod_eq)
    have "Suc ?m * n = n + ?m * n"
      by simp
    with e True have full: "Suc ?m * n = Suc ?l"
      by linarith
    have mn: "?m * n \<le> ?l"
      by simp
    have "take n (drop (?m * n) (ps @ [p])) = take n (drop (?m * n) ps @ [p])"
      using mn by simp
    also have "\<dots> = drop (?m * n) ps @ [p]"
      using rest True by simp
    finally have last: "take n (drop (?m * n) (ps @ [p])) = drop (?m * n) ps @ [p]" .
    have flush: "flush_if_full patch_width patch_height (state_after n ps)
        (buffer_of (drop (?m * n) ps @ [p])) =
      \<lparr>patch = empty_patch, cur_patch = cur_patch (state_after n ps) + 1,
       writer = writer (state_after n ps) @ [make_example (buffer_of (drop (?m * n) ps @ [p]))]\<rparr>"
      unfolding flush_if_full_def len cap using True by simp
    have dr: "drop (Suc ?l) (ps @ [p]) = []"
      by simp
    have w: "map (\<lambda>k. make_example (buffer_of (take n (drop (k * n) (ps @ [p]))))) [0..<?m]
        = map (\<lambda>k. make_example (buffer_of (take n (drop (k * n) ps)))) [0..<?m]"
    proof (rule map_cong [OF refl])
      fix k assume "k \<in> set [0..<?m]"
      then have "k < ?m" by simp
      from old [OF this]
      show "make_example (buffer_of (take n (drop (k * n) (ps @ [p])))) =
          make_example (buffer_of (take n (drop (k * n) ps)))"
        by (simp only:)
    qed
    have "state_after n (ps @ [p]) =
      \<lparr>patch = buffer_of (drop (Suc ?m * n) (ps @ [p])), cur_patch = 1 + int (Suc ?m),
       writer = map (\<lambda>k. make_example (buffer_of (take n (drop (k * n) (ps @ [p]))))) [0..<Suc ?m]\<rparr>"
      unfolding state_after_def by (simp only: length_append_singleton div)
    also have "\<dots> = \<lparr>patch = empty_patch, cur_patch = cur_patch (state_after n ps) + 1,
       writer = writer (state_after n ps) @ [make_example (buffer_of (drop (?m * n) ps @ [p]))]\<rparr>"
      unfolding full dr buffer_of_Nil
      by (simp only: upt_Suc_append [OF le0] map_append list.map w last)
        (simp add: state_after_def)
    finally show ?thesis
      unfolding body flush by simp
  next
    case False
    have div: "Suc ?l div n = ?m"
      using False by (simp add: div_Suc mod_Suc)
    have mn: "?m * n \<le> ?l"
      by simp
    have keep: "drop (?m * n) (ps @ [p]) = drop (?m * n) ps @ [p]"
      using mn by simp
    have flush: "flush_if_full patch_width patch_height (state_after n ps)
        (buffer_of (drop (?m * n) ps @ [p])) =
      (state_after n ps)\<lparr>patch := buffer_of (drop (?m * n) ps @ [p])\<rparr>"
      unfolding flush_if_full_def len cap using False by simp
    have w: "map (\<lambda>k. make_example (buffer_of (take n (drop (k * n) (ps @ [p]))))) [0..<?m]
        = map (\<lambda>k. make_example (buffer_of (take n (drop (k * n) ps)))) [0..<?m]"
    proof (rule map_cong [OF refl])
      fix k assume "k \<in> set [0..<?m]"
      then have "k < ?m" by simp
      from old [OF this]
      show "make_example (buffer_of (take n (drop (k * n) (ps @ [p])))) =
          make_example (buffer_of (take n (drop (k * n) ps)))"
        by (simp only:)
    qed
    have "state_after n (ps @ [p]) =
      \<lparr>patch = buffer_of (drop (?m * n) (ps @ [p])), cur_patch = 1 + int ?m,
       writer = map (\<lambda>k. make_example (buffer_of (take n (drop (k * n) (ps @ [p]))))) [0..<?m]\<rparr>"
      unfolding state_after_def by (simp only: length_append_singleton div)
    also have "\<dots> = (state_after n ps)\<lparr>patch := buffer_of (drop (?m * n) ps @ [p])\<rparr>"
      unfolding keep w by (simp add: state_after_def)
    finally show ?thesis
      unfolding body flush by simp
  qed
qed

lemma reassemble_state_after:
  assumes n: "0 < patch_width * patch_height" "n = nat (patch_width * patch_height)"
    and ps: "\<forall>p \<in> set ps. well_shaped p"
  shows "reassemble patch_width patch_height init_state ps = Inr (state_after n ps)"
  using ps
proof (induction ps rule: rev_induct)
  case Nil
  show ?case by (simp add: state_after_Nil)
next
  case (snoc p ps)
  then show ?case
    by (simp add: reassemble_snoc bind_def loop_body_state_after [OF n])
qed


lemma length_writer_state_after: "length (writer (state_after n ps)) = length ps div n"
  by (simp add: state_after_def)

lemma writer_state_after_nth:
  assumes "k < length ps div n"
  shows "writer (state_after n ps) ! k = make_example (buffer_of (take n (drop (k * n) ps)))"
  using assms by (simp add: state_after_def)

lemma chunk_in_range:
  assumes "k < length ps div n" "j < n"
  shows "k * n + j < length ps"
proof -
  from assms(1) have "Suc k \<le> length ps div n" by simp
  then have "Suc k * n \<le> length ps div n * n" by (rule mult_le_mono1)
  also have "\<dots> \<le> length ps" by simp
  finally show ?thesis using assms(2) by simp
qed

lemma length_chunk:
  assumes "k < length ps div n"
  shows "length (take n (drop (k * n) ps)) = n"
proof (cases "n = 0")
  case True
  then show ?thesis by simp
next
  case False
  then have "k * n + (n - 1) < length ps"
    using chunk_in_range [OF assms, of "n - 1"] by simp
  then show ?thesis by simp
qed

lemma chunk_nth:
  assumes "k < length ps div n" "j < n"
  shows "take n (drop (k * n) ps) ! j = ps ! (k * n + j)"
  using chunk_in_range [OF assms] assms(2) by simp

lemma example_of_buffer:
  "prediction (make_example (buffer_of qs)) = map (\<lambda>p. projr (class_index p)) qs"
  "cropland_etc (make_example (buffer_of qs)) = map (\<lambda>p. projr (item2 p 0 0)) qs"
  "rice (make_example (buffer_of qs)) = map (\<lambda>p. projr (item2 p 0 1)) qs"
  "forest (make_example (buffer_of qs)) = map (\<lambda>p. projr (item2 p 0 2)) qs"
  "urban (make_example (buffer_of qs)) = map (\<lambda>p. projr (item2 p 0 3)) qs"
  "others_etc (make_example (buffer_of qs)) = map (\<lambda>p. projr (item2 p 0 4)) qs"
  by (simp_all add: make_example_def buffer_of_def)

lemma write_predictions_state_after:
  assumes "0 < patch_width * patch_height" "n = nat (patch_width * patch_height)"
    and "\<forall>p \<in> set ps. well_shaped p"
  shows "write_predictions patch_width patch_height ps = Inr (writer (state_after n ps))"
  by (simp add: write_predictions_def reassemble_state_after [OF assms] bind_def)

lemma length_buffer_of:
  "length (patch_1 (buffer_of qs)) = length qs"
  "length (patch_2 (buffer_of qs)) = length qs"
  "length (patch_3 (buffer_of qs)) = length qs"
  "length (patch_4 (buffer_of qs)) = length qs"
  "length (patch_5 (buffer_of qs)) = length qs"
  by (simp_all add: buffer_of_def)

lemma well_shaped_class_index_projr:
  assumes "well_shaped p"
  shows "class_index p = Inr (projr (class_index p))"
  using well_shaped_class_index [OF assms] by auto

lemma well_shaped_item2_projr:
  assumes "well_shaped p" "j < 5"
  shows "item2 p 0 j = Inr (projr (item2 p 0 j))"
  using well_shaped_item2 [OF assms] by auto

lemma reassemble_never_full:
  assumes "patch_width * patch_height \<le> 0" and "\<forall>p \<in> set ps. well_shaped p"
  shows "reassemble patch_width patch_height init_state ps =
    Inr \<lparr>patch = buffer_of ps, cur_patch = 1, writer = []\<rparr>"
  using assms(2)
proof (induction ps rule: rev_induct)
  case Nil
  show ?case by (simp add: init_state_def buffer_of_Nil)
next
  case (snoc p ps)
  have "int (length (patch_0 (buffer_of (ps @ [p])))) \<noteq> patch_width * patch_height"
    using assms(1) by (simp add: length_patch_0_buffer_of)
  with snoc show ?case
    by (simp add: reassemble_snoc bind_def loop_body_def append_prediction_buffer_of
        flush_if_full_def)
qed

lemma writer_state_after_take:
  assumes "0 < n"
  shows "writer (state_after n (take (length ps div n * n) ps)) = writer (state_after n ps)"
proof -
  let ?m = "length ps div n"
  have mn: "?m * n \<le> length ps" by simp
  then have l: "length (take (?m * n) ps) = ?m * n" by simp
  have d: "?m * n div n = ?m" using assms by simp
  have "map (\<lambda>k. make_example (buffer_of (take n (drop (k * n) (take (?m * n) ps))))) [0..<?m]
      = map (\<lambda>k. make_example (buffer_of (take n (drop (k * n) ps)))) [0..<?m]"
  proof (rule map_cong [OF refl])
    fix k assume "k \<in> set [0..<?m]"
    then have "Suc k \<le> ?m" by simp
    then have "Suc k * n \<le> ?m * n" by (rule mult_le_mono1)
    then have "n \<le> ?m * n - k * n" by simp
    then have "take n (drop (k * n) (take (?m * n) ps)) = take n (drop (k * n) ps)"
      by (simp add: drop_take min_absorb1)
    then show "make_example (buffer_of (take n (drop (k * n) (take (?m * n) ps)))) =
        make_example (buffer_of (take n (drop (k * n) ps)))"
      by (simp only:)
  qed
  then show ?thesis
    unfolding state_after_def l d by simp
qed

section \<open>When the loop returns\<close>

lemma append_prediction_Inr_iff:
  "(\<exists>b'. append_prediction b p = Inr b') \<longleftrightarrow> well_shaped p"
  by (cases p)
    (auto simp: append_prediction_def class_index_def np_argmax_def item2_def getitem_def
      bind_def well_shaped_def split: list.splits sum.splits if_splits)

lemma reassemble_Inr_iff:
  "(\<exists>st'. reassemble patch_width patch_height st ps = Inr st') \<longleftrightarrow>
     (\<forall>p \<in> set ps. well_shaped p)"
proof (induction ps arbitrary: st)
  case Nil
  show ?case by simp
next
  case (Cons p ps)
  show ?case
  proof (cases "append_prediction (patch st) p")
    case (Inl e)
    then have "\<not> well_shaped p"
      using append_prediction_Inr_iff [of "patch st" p] by simp
    then show ?thesis
      by (simp add: loop_body_def Inl bind_def)
  next
    case (Inr b)
    then have "well_shaped p"
      using append_prediction_Inr_iff [of "patch st" p] by auto
    then show ?thesis
      by (simp add: loop_body_def Inr bind_def Cons.IH)
  qed
qed

lemma reassemble_append:
  "reassemble patch_width patch_height st (ps @ qs) =
     bind (reassemble patch_width patch_height st ps)
       (\<lambda>st'. reassemble patch_width patch_height st' qs)"
  by (induction ps arbitrary: st) (auto simp: bind_def split: sum.splits)

section \<open>The claims about the reassembly loop\<close>

text \<open>
  C1. For every patch width and height of at least 1 and every declared patch count
  \<open>P \<ge> 0\<close>, feeding exactly \<open>P * patch_width * patch_height\<close> predictions, each with
  its row of five scores, through the loop writes exactly \<open>P\<close> records, and in every
  record each of the six fields \<open>prediction\<close>, \<open>cropland_etc\<close>, \<open>rice\<close>, \<open>forest\<close>,
  \<open>urban\<close> and \<open>others_etc\<close> has \<open>patch_width * patch_height\<close> entries.
\<close>

theorem reassembly_record_count:
  assumes W: "1 \<le> patch_width" and H: "1 \<le> patch_height" and P: "0 \<le> P"
    and len: "int (length predictions) = P * patch_width * patch_height"
    and shaped: "\<forall>p \<in> set predictions. well_shaped p"
  shows "\<exists>records. write_predictions patch_width patch_height predictions = Inr records \<and>
      int (length records) = P \<and>
      (\<forall>r \<in> set records.
         int (length (prediction r)) = patch_width * patch_height \<and>
         int (length (cropland_etc r)) = patch_width * patch_height \<and>
         int (length (rice r)) = patch_width * patch_height \<and>
         int (length (forest r)) = patch_width * patch_height \<and>
         int (length (urban r)) = patch_width * patch_height \<and>
         int (length (others_etc r)) = patch_width * patch_height)"
proof -
  define n where "n = nat (patch_width * patch_height)"
  have pos: "0 < patch_width * patch_height"
    using W H by simp
  then have n: "int n = patch_width * patch_height" and n0: "0 < n"
    by (simp_all add: n_def)
  let ?records = "writer (state_after n predictions)"
  have out: "write_predictions patch_width patch_height predictions = Inr ?records"
    by (rule write_predictions_state_after [OF pos n_def shaped])
  have "int (length predictions) = P * int n"
    using len n by (simp add: mult.assoc)
  then have "length predictions = nat P * n"
    using P by (metis nat_int nat_mult_distrib)
  then have count: "length predictions div n = nat P"
    using n0 by simp
  then have "int (length ?records) = P"
    using P by (simp add: length_writer_state_after)
  moreover have "int (length (prediction r)) = patch_width * patch_height \<and>
         int (length (cropland_etc r)) = patch_width * patch_height \<and>
         int (length (rice r)) = patch_width * patch_height \<and>
         int (length (forest r)) = patch_width * patch_height \<and>
         int (length (urban r)) = patch_width * patch_height \<and>
         int (length (others_etc r)) = patch_width * patch_height"
    if "r \<in> set ?records" for r
  proof -
    from that obtain k where k: "k < length predictions div n" and r: "r = ?records ! k"
      by (metis in_set_conv_nth length_writer_state_after)
    show ?thesis
      unfolding r writer_state_after_nth [OF k] example_of_buffer length_map
        length_chunk [OF k] n by simp
  qed
  ultimately show ?thesis
    using out by blast
qed

theorem reassembly_record_count_witness:
  "(1::int) \<le> 1 \<and> (1::int) \<le> 2 \<and> (0::int) \<le> 1 \<and>
   int (length [[[Fin 1, Fin 5, Fin 2, Fin 0, Fin 3]], [[Fin 7, Fin 5, Fin 2, Fin 0, Fin 3]]])
     = 1 * 1 * 2 \<and>
   well_shaped [[Fin 1, Fin 5, Fin 2, Fin 0, Fin 3]] \<and>
   well_shaped [[Fin 7, Fin 5, Fin 2, Fin 0, Fin 3]] \<and>
   (\<exists>records.
      write_predictions 1 2
        [[[Fin 1, Fin 5, Fin 2, Fin 0, Fin 3]], [[Fin 7, Fin 5, Fin 2, Fin 0, Fin 3]]]
        = Inr records \<and>
      int (length records) = 1 \<and>
      (\<forall>r \<in> set records.
         int (length (prediction r)) = 1 * 2 \<and>
         int (length (cropland_etc r)) = 1 * 2 \<and>
         int (length (rice r)) = 1 * 2 \<and>
         int (length (forest r)) = 1 * 2 \<and>
         int (length (urban r)) = 1 * 2 \<and>
         int (length (others_etc r)) = 1 * 2))"
  using reassembly_record_count [of 1 2 1
      "[[[Fin 1, Fin 5, Fin 2, Fin 0, Fin 3]], [[Fin 7, Fin 5, Fin 2, Fin 0, Fin 3]]]"]
  by (simp add: well_shaped_def)

text \<open>
  C2. The records come out in input order: record \<open>k\<close> (counting from 0) holds, at
  position \<open>j\<close> of each field, the class index and the five scores of the prediction
  with input index \<open>k * patch_width * patch_height + j\<close>, and every field has
  \<open>patch_width * patch_height\<close> entries; the patch counter ends at one more than the
  number of records written, so the record at position \<open>k\<close> was written as patch
  \<open>k + 1\<close>.
\<close>

theorem reassembly_keeps_input_order:
  assumes shaped: "\<forall>p \<in> set predictions. well_shaped p"
  shows "\<exists>st. reassemble patch_width patch_height init_state predictions = Inr st \<and>
      write_predictions patch_width patch_height predictions = Inr (writer st) \<and>
      cur_patch st = 1 + int (length (writer st)) \<and>
      (\<forall>k < length (writer st). \<forall>j < nat (patch_width * patch_height).
         k * nat (patch_width * patch_height) + j < length predictions \<and>
         length (prediction (writer st ! k)) = nat (patch_width * patch_height) \<and>
         length (cropland_etc (writer st ! k)) = nat (patch_width * patch_height) \<and>
         length (rice (writer st ! k)) = nat (patch_width * patch_height) \<and>
         length (forest (writer st ! k)) = nat (patch_width * patch_height) \<and>
         length (urban (writer st ! k)) = nat (patch_width * patch_height) \<and>
         length (others_etc (writer st ! k)) = nat (patch_width * patch_height) \<and>
         class_index (predictions ! (k * nat (patch_width * patch_height) + j))
           = Inr (prediction (writer st ! k) ! j) \<and>
         item2 (predictions ! (k * nat (patch_width * patch_height) + j)) 0 0
           = Inr (cropland_etc (writer st ! k) ! j) \<and>
         item2 (predictions ! (k * nat (patch_width * patch_height) + j)) 0 1
           = Inr (rice (writer st ! k) ! j) \<and>
         item2 (predictions ! (k * nat (patch_width * patch_height) + j)) 0 2
           = Inr (forest (writer st ! k) ! j) \<and>
         item2 (predictions ! (k * nat (patch_width * patch_height) + j)) 0 3
           = Inr (urban (writer st ! k) ! j) \<and>
         item2 (predictions ! (k * nat (patch_width * patch_height) + j)) 0 4
           = Inr (others_etc (writer st ! k) ! j))"
proof (cases "0 < patch_width * patch_height")
  case False
  then have "reassemble patch_width patch_height init_state predictions =
      Inr \<lparr>patch = buffer_of predictions, cur_patch = 1, writer = []\<rparr>"
    using reassemble_never_full [OF _ shaped] by simp
  then show ?thesis
    by (simp add: write_predictions_def bind_def)
next
  case True
  define n where "n = nat (patch_width * patch_height)"
  let ?st = "state_after n predictions"
  have run: "reassemble patch_width patch_height init_state predictions = Inr ?st"
    by (rule reassemble_state_after [OF True n_def shaped])
  have out: "write_predictions patch_width patch_height predictions = Inr (writer ?st)"
    by (rule write_predictions_state_after [OF True n_def shaped])
  have cur: "cur_patch ?st = 1 + int (length (writer ?st))"
    by (simp add: state_after_def)
  have rec: "k * n + j < length predictions \<and>
         length (prediction (writer ?st ! k)) = n \<and>
         length (cropland_etc (writer ?st ! k)) = n \<and>
         length (rice (writer ?st ! k)) = n \<and>
         length (forest (writer ?st ! k)) = n \<and>
         length (urban (writer ?st ! k)) = n \<and>
         length (others_etc (writer ?st ! k)) = n \<and>
         class_index (predictions ! (k * n + j)) = Inr (prediction (writer ?st ! k) ! j) \<and>
         item2 (predictions ! (k * n + j)) 0 0 = Inr (cropland_etc (writer ?st ! k) ! j) \<and>
         item2 (predictions ! (k * n + j)) 0 1 = Inr (rice (writer ?st ! k) ! j) \<and>
         item2 (predictions ! (k * n + j)) 0 2 = Inr (forest (writer ?st ! k) ! j) \<and>
         item2 (predictions ! (k * n + j)) 0 3 = Inr (urban (writer ?st ! k) ! j) \<and>
         item2 (predictions ! (k * n + j)) 0 4 = Inr (others_etc (writer ?st ! k) ! j)"
    if k: "k < length (writer ?st)" and j: "j < n" for k j
  proof -
    from k have k': "k < length predictions div n"
      by (simp add: length_writer_state_after)
    let ?c = "take n (drop (k * n) predictions)"
    have i: "k * n + j < length predictions"
      by (rule chunk_in_range [OF k' j])
    have lc: "length ?c = n"
      by (rule length_chunk [OF k'])
    have cj: "?c ! j = predictions ! (k * n + j)"
      by (rule chunk_nth [OF k' j])
    have w: "well_shaped (predictions ! (k * n + j))"
      using shaped i by simp
    have jc: "j < length ?c"
      using lc j by simp
    show ?thesis
      unfolding writer_state_after_nth [OF k'] example_of_buffer length_map lc
        nth_map [OF jc] cj
      using i well_shaped_class_index_projr [OF w] well_shaped_item2_projr [OF w]
      by simp
  qed
  show ?thesis
    using run out cur rec unfolding n_def by blast
qed


theorem reassembly_keeps_input_order_witness:
  "well_shaped [scores_a] \<and> well_shaped [scores_b] \<and>
   (\<exists>st. reassemble 1 2 init_state [[scores_a], [scores_b]] = Inr st \<and>
      write_predictions 1 2 [[scores_a], [scores_b]] = Inr (writer st) \<and>
      length (writer st) = 1 \<and> cur_patch st = 2 \<and>
      length (prediction (writer st ! 0)) = 2 \<and>
      class_index ([[scores_a], [scores_b]] ! 1) = Inr (prediction (writer st ! 0) ! 1) \<and>
      item2 ([[scores_a], [scores_b]] ! 1) 0 0 = Inr (cropland_etc (writer st ! 0) ! 1) \<and>
      item2 ([[scores_a], [scores_b]] ! 1) 0 4 = Inr (others_etc (writer st ! 0) ! 1))"
proof -
  have w: "well_shaped [scores_a]" "well_shaped [scores_b]"
    by (simp_all add: well_shaped_def scores_a_def scores_b_def)
  then have "\<forall>p \<in> set [[scores_a], [scores_b]]. well_shaped p"
    by simp
  from reassembly_keeps_input_order [OF this, of 1 2]
  obtain st where st: "reassemble 1 2 init_state [[scores_a], [scores_b]] = Inr st"
    and out: "write_predictions 1 2 [[scores_a], [scores_b]] = Inr (writer st)"
    and cur: "cur_patch st = 1 + int (length (writer st))"
    and rec: "\<And>k j. k < length (writer st) \<Longrightarrow> j < nat (1 * 2) \<Longrightarrow>
      length (prediction (writer st ! k)) = nat (1 * 2) \<and>
      class_index ([[scores_a], [scores_b]] ! (k * nat (1 * 2) + j))
        = Inr (prediction (writer st ! k) ! j) \<and>
      item2 ([[scores_a], [scores_b]] ! (k * nat (1 * 2) + j)) 0 0
        = Inr (cropland_etc (writer st ! k) ! j) \<and>
      item2 ([[scores_a], [scores_b]] ! (k * nat (1 * 2) + j)) 0 4
        = Inr (others_etc (writer st ! k) ! j)"
    by blast
  have "\<exists>r. write_predictions 1 2 [[scores_a], [scores_b]] = Inr [r]"
    by (simp add: write_predictions_def init_state_def loop_body_def
      append_prediction_def class_index_def np_argmax_def item2_def getitem_def bind_def
      flush_if_full_def empty_patch_def make_example_def isnan_def scores_a_def
      scores_b_def binary32_def)
  with out have len: "length (writer st) = 1"
    by auto
  from rec [of 0 1] len cur st out w show ?thesis
    by auto
qed

text \<open>
  C4. When the number of predictions is not a multiple of
  \<open>patch_width * patch_height\<close>, the loop returns without an error, writes exactly
  the quotient of the two numbers in full records, keeps the remaining predictions in
  the buffer, and the file is the same as if those trailing predictions had never been
  fed.
\<close>

theorem trailing_partial_patch_dropped:
  assumes pos: "0 < patch_width * patch_height"
    and shaped: "\<forall>p \<in> set predictions. well_shaped p"
    and partial: "int (length predictions) mod (patch_width * patch_height) \<noteq> 0"
  shows "\<exists>st. reassemble patch_width patch_height init_state predictions = Inr st \<and>
      write_predictions patch_width patch_height predictions = Inr (writer st) \<and>
      int (length (writer st)) = int (length predictions) div (patch_width * patch_height) \<and>
      (\<forall>r \<in> set (writer st).
         int (length (prediction r)) = patch_width * patch_height \<and>
         int (length (cropland_etc r)) = patch_width * patch_height \<and>
         int (length (rice r)) = patch_width * patch_height \<and>
         int (length (forest r)) = patch_width * patch_height \<and>
         int (length (urban r)) = patch_width * patch_height \<and>
         int (length (others_etc r)) = patch_width * patch_height) \<and>
      int (length (patch_0 (patch st))) = int (length predictions) mod (patch_width * patch_height) \<and>
      write_predictions patch_width patch_height predictions =
        write_predictions patch_width patch_height
          (take (length (writer st) * nat (patch_width * patch_height)) predictions)"
proof -
  define n where "n = nat (patch_width * patch_height)"
  have n: "patch_width * patch_height = int n" and n0: "0 < n"
    using pos by (simp_all add: n_def)
  let ?st = "state_after n predictions"
  let ?m = "length predictions div n"
  have run: "reassemble patch_width patch_height init_state predictions = Inr ?st"
    by (rule reassemble_state_after [OF pos n_def shaped])
  have out: "write_predictions patch_width patch_height predictions = Inr (writer ?st)"
    by (rule write_predictions_state_after [OF pos n_def shaped])
  have count: "int (length (writer ?st)) = int (length predictions) div (patch_width * patch_height)"
    unfolding n length_writer_state_after by (simp add: zdiv_int)
  have full: "int (length (prediction r)) = patch_width * patch_height \<and>
         int (length (cropland_etc r)) = patch_width * patch_height \<and>
         int (length (rice r)) = patch_width * patch_height \<and>
         int (length (forest r)) = patch_width * patch_height \<and>
         int (length (urban r)) = patch_width * patch_height \<and>
         int (length (others_etc r)) = patch_width * patch_height"
    if "r \<in> set (writer ?st)" for r
  proof -
    from that obtain k where k: "k < ?m" and r: "r = writer ?st ! k"
      by (metis in_set_conv_nth length_writer_state_after)
    show ?thesis
      unfolding r writer_state_after_nth [OF k] example_of_buffer length_map
        length_chunk [OF k] n by simp
  qed
  have "length (patch_0 (patch ?st)) = length predictions mod n"
    by (simp add: state_after_def length_patch_0_buffer_of minus_div_mult_eq_mod)
  then have rest: "int (length (patch_0 (patch ?st))) =
      int (length predictions) mod (patch_width * patch_height)"
    unfolding n by (simp add: zmod_int)
  have "\<forall>p \<in> set (take (?m * n) predictions). well_shaped p"
    using shaped by (meson in_set_takeD)
  then have "write_predictions patch_width patch_height (take (?m * n) predictions) =
      Inr (writer (state_after n (take (?m * n) predictions)))"
    by (rule write_predictions_state_after [OF pos n_def])
  then have same: "write_predictions patch_width patch_height predictions =
      write_predictions patch_width patch_height
        (take (length (writer ?st) * nat (patch_width * patch_height)) predictions)"
    unfolding length_writer_state_after n_def [symmetric]
    by (simp add: out writer_state_after_take [OF n0])
  show ?thesis
    using run out count full rest same by blast
qed

theorem trailing_partial_patch_dropped_witness:
  "(0::int) < 1 * 2 \<and>
   well_shaped [[Fin 1, Fin 5, Fin 2, Fin 0, Fin 3]] \<and>
   well_shaped [[Fin 7, Fin 5, Fin 2, Fin 0, Fin 3]] \<and>
   well_shaped [[Fin 4, Fin 4, Fin 9, Fin 0, Fin 3]] \<and>
   int (length [[[Fin 1, Fin 5, Fin 2, Fin 0, Fin 3]], [[Fin 7, Fin 5, Fin 2, Fin 0, Fin 3]],
     [[Fin 4, Fin 4, Fin 9, Fin 0, Fin 3]]]) mod (1 * 2) \<noteq> 0 \<and>
   (\<exists>st. reassemble 1 2 init_state
        [[[Fin 1, Fin 5, Fin 2, Fin 0, Fin 3]], [[Fin 7, Fin 5, Fin 2, Fin 0, Fin 3]],
         [[Fin 4, Fin 4, Fin 9, Fin 0, Fin 3]]] = Inr st \<and>
      write_predictions 1 2
        [[[Fin 1, Fin 5, Fin 2, Fin 0, Fin 3]], [[Fin 7, Fin 5, Fin 2, Fin 0, Fin 3]],
         [[Fin 4, Fin 4, Fin 9, Fin 0, Fin 3]]] = Inr (writer st) \<and>
      int (length (writer st)) = 1 \<and>
      int (length (patch_0 (patch st))) = 1)"
  using trailing_partial_patch_dropped [of 1 2
      "[[[Fin 1, Fin 5, Fin 2, Fin 0, Fin 3]], [[Fin 7, Fin 5, Fin 2, Fin 0, Fin 3]],
        [[Fin 4, Fin 4, Fin 9, Fin 0, Fin 3]]]"]
  by (auto simp add: well_shaped_def)

text \<open>
  C6. The example scenario: with patch dimensions 2 by 2, the four predictions with
  scores \<open>[.9, .05, .02, .02, .01]\<close>, \<open>[.1, .7, .1, .05, .05]\<close>, any five scores whose
  argmax is 2 and any five scores whose argmax is 0 give exactly one record, whose
  \<open>prediction\<close> field is \<open>[0, 1, 2, 0]\<close> and whose five score fields have four
  entries each.
\<close>

theorem example_scenario:
  assumes "length v3 = 5" "np_argmax [v3] = Inr 2"
    and "length v4 = 5" "np_argmax [v4] = Inr 0"
  shows "\<exists>r. write_predictions 2 2 [[scores_a], [scores_b], [v3], [v4]] = Inr [r] \<and>
      prediction r = [0, 1, 2, 0] \<and>
      length (cropland_etc r) = 4 \<and> length (rice r) = 4 \<and> length (forest r) = 4 \<and>
      length (urban r) = 4 \<and> length (others_etc r) = 4"
proof -
  have a: "class_index [scores_a] = Inr 0"
    by (simp add: class_index_def np_argmax_def scores_a_def binary32_def isnan_def bind_def)
  have b: "class_index [scores_b] = Inr 1"
    by (simp add: class_index_def np_argmax_def scores_b_def binary32_def isnan_def bind_def)
  have c: "class_index [v3] = Inr 2" "class_index [v4] = Inr 0"
    using assms by (simp_all add: class_index_def bind_def)
  have i: "item2 [v] 0 j = Inr (v ! j)" if "j < length v" for v j
    using that by (simp add: item2_def getitem_def bind_def)
  have la: "length scores_a = 5" and lb: "length scores_b = 5"
    by (simp_all add: scores_a_def scores_b_def)
  have ap: "append_prediction buf [v] =
      Inr \<lparr>patch_0 = patch_0 buf @ [cl], patch_1 = patch_1 buf @ [v ! 0],
           patch_2 = patch_2 buf @ [v ! 1], patch_3 = patch_3 buf @ [v ! 2],
           patch_4 = patch_4 buf @ [v ! 3], patch_5 = patch_5 buf @ [v ! 4]\<rparr>"
    if "length v = 5" "class_index [v] = Inr cl" for buf v cl
    using that by (simp add: append_prediction_def i bind_def)
  show ?thesis
    by (simp add: write_predictions_def init_state_def loop_body_def
        ap [OF la a] ap [OF lb b] ap [OF assms(1) c(1)] ap [OF assms(3) c(2)]
        flush_if_full_def empty_patch_def make_example_def bind_def)
qed

theorem example_scenario_witness:
  "length scores_c = 5 \<and> np_argmax [scores_c] = Inr 2 \<and>
   length scores_a = 5 \<and> np_argmax [scores_a] = Inr 0 \<and>
   (\<exists>r. write_predictions 2 2 [[scores_a], [scores_b], [scores_c], [scores_a]] = Inr [r] \<and>
      prediction r = [0, 1, 2, 0] \<and>
      length (cropland_etc r) = 4 \<and> length (rice r) = 4 \<and> length (forest r) = 4 \<and>
      length (urban r) = 4 \<and> length (others_etc r) = 4)"
proof -
  have c: "length scores_c = 5" "np_argmax [scores_c] = Inr 2"
    by (simp_all add: np_argmax_def scores_c_def binary32_def isnan_def)
  have a: "length scores_a = 5" "np_argmax [scores_a] = Inr 0"
    by (simp_all add: np_argmax_def scores_a_def binary32_def isnan_def)
  from example_scenario [OF c a] c a show ?thesis
    by simp
qed

text \<open>
  C9. After each prediction is processed the six buffers have the same length, which
  is the number of predictions processed so far modulo the patch capacity and so never
  exceeds the capacity; between the six appends and the capacity test the buffers are
  again of equal length and at most the capacity.
\<close>

theorem buffer_within_capacity:
  assumes pos: "0 < patch_width * patch_height"
    and shaped: "\<forall>p \<in> set predictions. well_shaped p"
    and k: "k \<le> length predictions"
  shows "\<exists>st. reassemble patch_width patch_height init_state (take k predictions) = Inr st \<and>
      length (patch_0 (patch st)) = k mod nat (patch_width * patch_height) \<and>
      int (length (patch_0 (patch st))) \<le> patch_width * patch_height \<and>
      length (patch_1 (patch st)) = length (patch_0 (patch st)) \<and>
      length (patch_2 (patch st)) = length (patch_0 (patch st)) \<and>
      length (patch_3 (patch st)) = length (patch_0 (patch st)) \<and>
      length (patch_4 (patch st)) = length (patch_0 (patch st)) \<and>
      length (patch_5 (patch st)) = length (patch_0 (patch st)) \<and>
      (k < length predictions \<longrightarrow>
        (\<exists>b. append_prediction (patch st) (predictions ! k) = Inr b \<and>
          int (length (patch_0 b)) \<le> patch_width * patch_height \<and>
          length (patch_1 b) = length (patch_0 b) \<and>
          length (patch_2 b) = length (patch_0 b) \<and>
          length (patch_3 b) = length (patch_0 b) \<and>
          length (patch_4 b) = length (patch_0 b) \<and>
          length (patch_5 b) = length (patch_0 b)))"
proof -
  define n where "n = nat (patch_width * patch_height)"
  have n: "patch_width * patch_height = int n" and n0: "0 < n"
    using pos by (simp_all add: n_def)
  let ?ps = "take k predictions"
  let ?st = "state_after n ?ps"
  let ?qs = "drop (length ?ps div n * n) ?ps"
  have lk: "length ?ps = k"
    using k by simp
  have "\<forall>p \<in> set ?ps. well_shaped p"
    using shaped by (meson in_set_takeD)
  then have run: "reassemble patch_width patch_height init_state ?ps = Inr ?st"
    by (rule reassemble_state_after [OF pos n_def])
  have buf: "patch ?st = buffer_of ?qs"
    by (simp add: state_after_def)
  have lq: "length ?qs = k mod n"
    unfolding length_drop lk by (simp add: minus_div_mult_eq_mod)
  have lt: "k mod n < n"
    using n0 by simp
  have len0: "length (patch_0 (patch ?st)) = k mod n"
    unfolding buf length_patch_0_buffer_of lq ..
  have le: "int (length (patch_0 (patch ?st))) \<le> patch_width * patch_height"
    unfolding len0 n using lt by simp
  have eq: "length (patch_1 (patch ?st)) = length (patch_0 (patch ?st))"
    "length (patch_2 (patch ?st)) = length (patch_0 (patch ?st))"
    "length (patch_3 (patch ?st)) = length (patch_0 (patch ?st))"
    "length (patch_4 (patch ?st)) = length (patch_0 (patch ?st))"
    "length (patch_5 (patch ?st)) = length (patch_0 (patch ?st))"
    unfolding buf length_buffer_of length_patch_0_buffer_of by (rule refl)+
  have mid: "\<exists>b. append_prediction (patch ?st) (predictions ! k) = Inr b \<and>
          int (length (patch_0 b)) \<le> patch_width * patch_height \<and>
          length (patch_1 b) = length (patch_0 b) \<and>
          length (patch_2 b) = length (patch_0 b) \<and>
          length (patch_3 b) = length (patch_0 b) \<and>
          length (patch_4 b) = length (patch_0 b) \<and>
          length (patch_5 b) = length (patch_0 b)"
    if "k < length predictions"
  proof -
    from that shaped have "well_shaped (predictions ! k)"
      by simp
    then have a: "append_prediction (patch ?st) (predictions ! k) =
        Inr (buffer_of (?qs @ [predictions ! k]))"
      unfolding buf by (rule append_prediction_buffer_of)
    have "length (?qs @ [predictions ! k]) = Suc (k mod n)"
      unfolding length_append lq by simp
    then have "int (length (patch_0 (buffer_of (?qs @ [predictions ! k])))) \<le> int n"
      unfolding length_patch_0_buffer_of using lt by simp
    then show ?thesis
      unfolding a n by (simp add: length_buffer_of length_patch_0_buffer_of)
  qed
  show ?thesis
    using run len0 le eq mid unfolding n_def by blast
qed


theorem buffer_within_capacity_witness:
  "(0::int) < 1 * 2 \<and> well_shaped [scores_a] \<and> well_shaped [scores_b] \<and>
   well_shaped [scores_c] \<and> (1::nat) \<le> length [[scores_a], [scores_b], [scores_c]] \<and>
   (\<exists>st. reassemble 1 2 init_state (take 1 [[scores_a], [scores_b], [scores_c]]) = Inr st \<and>
      length (patch_0 (patch st)) = 1 \<and>
      int (length (patch_0 (patch st))) \<le> 1 * 2 \<and>
      length (patch_1 (patch st)) = length (patch_0 (patch st)) \<and>
      length (patch_2 (patch st)) = length (patch_0 (patch st)) \<and>
      length (patch_3 (patch st)) = length (patch_0 (patch st)) \<and>
      length (patch_4 (patch st)) = length (patch_0 (patch st)) \<and>
      length (patch_5 (patch st)) = length (patch_0 (patch st)) \<and>
      (\<exists>b. append_prediction (patch st) ([[scores_a], [scores_b], [scores_c]] ! 1) = Inr b \<and>
         int (length (patch_0 b)) \<le> 1 * 2 \<and>
         length (patch_1 b) = length (patch_0 b) \<and>
         length (patch_5 b) = length (patch_0 b)))"
proof -
  have w: "well_shaped [scores_a]" "well_shaped [scores_b]" "well_shaped [scores_c]"
    by (simp_all add: well_shaped_def scores_a_def scores_b_def scores_c_def)
  then have "\<forall>p \<in> set [[scores_a], [scores_b], [scores_c]]. well_shaped p"
    by simp
  from buffer_within_capacity [OF _ this, of 1 2 1] w show ?thesis
    by auto
qed


section \<open>The patch quality filter\<close>

lemma f32_add_not_finite:
  assumes "\<not> isfinite x \<or> \<not> isfinite y"
  shows "\<not> isfinite (f32_add x y)"
  using assms by (cases x; cases y) (simp_all add: isfinite_def isnan_def isinf_def)

lemma foldl_f32_add_not_finite_acc:
  "\<not> isfinite a \<Longrightarrow> \<not> isfinite (foldl f32_add a xs)"
  by (induction xs arbitrary: a) (simp_all add: f32_add_not_finite)

lemma foldl_f32_add_not_finite:
  "\<exists>x \<in> set xs. \<not> isfinite x \<Longrightarrow> \<not> isfinite (foldl f32_add a xs)"
proof (induction xs arbitrary: a)
  case Nil
  then show ?case by simp
next
  case (Cons x xs)
  show ?case
  proof (cases "isfinite x")
    case True
    with Cons.prems have "\<exists>y \<in> set xs. \<not> isfinite y" by auto
    then show ?thesis by (simp add: Cons.IH)
  next
    case False
    then have "\<not> isfinite (f32_add a x)" by (simp add: f32_add_not_finite)
    then show ?thesis by (simp add: foldl_f32_add_not_finite_acc)
  qed
qed

lemma filter_good_patches_iff:
  "filter_good_patches p = isfinite (np_sum (view_float32 p))"
  by (simp add: filter_good_patches_def isfinite_def Let_def)

lemma filter_good_patches_not_finite:
  assumes "\<exists>px \<in> set p. \<exists>x \<in> set px. \<not> isfinite x"
  shows "filter_good_patches p = False"
proof -
  from assms have "\<exists>x \<in> set (concat p). \<not> isfinite x"
    by auto
  then have "\<not> isfinite (np_sum (view_float32 p))"
    unfolding np_sum_def view_float32_def by (rule foldl_f32_add_not_finite)
  then show ?thesis
    by (simp add: filter_good_patches_iff)
qed

lemma f32_add_FLT_MAX: "f32_add FLT_MAX FLT_MAX = PInf"
  by (simp add: FLT_MAX_def binary32_def round_f32_def bit_length.simps Let_def)

lemma round_f32_FLT_MAX: "round_f32 ((2 ^ 24 - 1) * 2 ^ 253) = FLT_MAX"
  by (simp add: FLT_MAX_def binary32_def round_f32_def bit_length.simps Let_def)

text \<open>
  C3. The filter answers False for every patch with a NaN or an infinity
  (\<open>filter_good_patches_not_finite\<close>), but not True for every patch of finite values:
  the patch of one pixel with two bands, both the largest finite float32, has a sum
  that overflows to infinity, and the filter answers False.
\<close>

theorem filter_good_patches_overflow:
  "representable FLT_MAX \<and> isfinite FLT_MAX \<and>
   filter_good_patches [[FLT_MAX, FLT_MAX]] = False"
proof -
  have "representable FLT_MAX"
    using round_f32_FLT_MAX by (simp add: representable_def FLT_MAX_def binary32_def)
  moreover have "isfinite FLT_MAX"
    by (simp add: FLT_MAX_def binary32_def isfinite_def isnan_def isinf_def)
  moreover have "f32_add (Fin 0) FLT_MAX = FLT_MAX"
    using round_f32_FLT_MAX by (simp add: FLT_MAX_def binary32_def)
  then have "np_sum (view_float32 [[FLT_MAX, FLT_MAX]]) = PInf"
    by (simp add: np_sum_def view_float32_def f32_add_FLT_MAX)
  then have "filter_good_patches [[FLT_MAX, FLT_MAX]] = False"
    by (simp add: filter_good_patches_def isinf_def)
  ultimately show ?thesis
    by blast
qed

section \<open>The export of training data\<close>

text \<open>
  C8. For every export type other than \<open>''cloud''\<close>, \<open>export_training_data\<close>
  raises NotImplementedError and leaves the service as it was: no export task is
  created or started. For \<open>''cloud''\<close> it is the cloud storage export, which creates one
  task.
\<close>

theorem export_training_data_cloud_only:
  "(export_type \<noteq> ''cloud'' \<longrightarrow>
      export_training_data coll export_type start_training params s =
        (Some NotImplementedError, s)) \<and>
   export_training_data coll ''cloud'' start_training params s =
     (None, export_to_cloud_storage coll start_training params s) \<and>
   length (created (export_to_cloud_storage coll start_training params s)) =
     Suc (length (created s))"
  by (simp add: export_training_data_def export_to_cloud_storage_def Let_def)

theorem export_training_data_cloud_only_witness:
  "''drive'' \<noteq> ''cloud'' \<and>
   export_training_data \<lparr>collection_id = ''samples'', first_property_names = [''b1'']\<rparr>
     ''drive'' True Map.empty \<lparr>created = [], started = []\<rparr> =
       (Some NotImplementedError, \<lparr>created = [], started = []\<rparr>)"
  using export_training_data_cloud_only [of "''drive''"
      "\<lparr>collection_id = ''samples'', first_property_names = [''b1'']\<rparr>"
      True Map.empty "\<lparr>created = [], started = []\<rparr>"]
  by simp


end
